theory Spec2Isabelle
  imports Complex_Main "HOL-Library.Word"
begin

section \<open>The bounded task queue (class \<open>RequestQueue\<close> of \<open>src/index.tsx\<close>)\<close>

text \<open>
  A task is a zero-argument function of type \<open>() => Promise<void>\<close>. The queue never
  looks inside it; what matters to the scheduler is whether the call \<open>task()\<close> hands
  back a promise (every \<open>async\<close> function does) or throws before it returns one.
  A task is therefore a label together with that one bit.
\<close>

datatype task = Task (task_label: nat) (throws_on_call: bool)

text \<open>How a promise handed back by \<open>task()\<close> settles.\<close>

datatype outcome = Fulfilled | Rejected

text \<open>
  The fields \<open>queue\<close>, \<open>activeCount\<close> and \<open>maxConcurrent\<close> are the fields of the class.
  The last two fields are instrumentation that the class does not have: \<open>started\<close> logs
  every call \<open>task()\<close> in the order in which it is made, and \<open>running\<close> holds the tasks
  whose promise exists and has not settled yet.
\<close>

record RequestQueue =
  queue :: "task list"
  activeCount :: int
  maxConcurrent :: int
  started :: "task list"
  running :: "task list"

definition imageGenQueue :: RequestQueue where
  "imageGenQueue =
     \<lparr>queue = [], activeCount = 0, maxConcurrent = 3, started = [], running = []\<rparr>"

text \<open>
  \<open>process\<close>: the second component of the result says whether an exception left the
  method (the call \<open>task()\<close> threw). The object lives on after that, with the count
  already incremented and no \<open>finally\<close> callback registered.
\<close>

definition process :: "RequestQueue \<Rightarrow> RequestQueue \<times> bool" where
  "process s =
     (if activeCount s \<ge> maxConcurrent s \<or> length (queue s) = 0 then (s, False)
      else
        (case queue s of
           [] \<Rightarrow> (s, False)
         | t # rest \<Rightarrow>
             (let s1 = s\<lparr>queue := rest, activeCount := activeCount s + 1,
                          started := started s @ [t]\<rparr>
              in if throws_on_call t then (s1, True)
                 else (s1\<lparr>running := running s1 @ [t]\<rparr>, False))))"

definition add :: "RequestQueue \<Rightarrow> task \<Rightarrow> RequestQueue \<times> bool" where
  "add s t = process (s\<lparr>queue := queue s @ [t]\<rparr>)"

text \<open>
  The callback given to \<open>finally\<close>. It runs when the promise of a running task settles,
  and \<open>finally\<close> does not tell it how the promise settled. A task that is not running
  has no pending promise, so nothing happens for it. The promise that \<open>finally\<close>
  returns is dropped: a rejection passes into it and nobody handles it there, which the
  queue does not notice.
\<close>

definition settled :: "RequestQueue \<Rightarrow> task \<Rightarrow> outcome \<Rightarrow> RequestQueue \<times> bool" where
  "settled s t oc =
     (if t \<in> set (running s)
      then process (s\<lparr>running := remove1 t (running s), activeCount := activeCount s - 1\<rparr>)
      else (s, False))"

datatype event = Add task | Settle task outcome

fun step :: "RequestQueue \<Rightarrow> event \<Rightarrow> RequestQueue" where
  "step s (Add t) = fst (add s t)"
| "step s (Settle t oc) = fst (settled s t oc)"

fun run :: "RequestQueue \<Rightarrow> event list \<Rightarrow> RequestQueue" where
  "run s [] = s"
| "run s (e # es) = run (step s e) es"

text \<open>The tasks handed to \<open>add\<close> by a sequence of events, in order.\<close>

fun adds :: "event list \<Rightarrow> task list" where
  "adds [] = []"
| "adds (Add t # es) = t # adds es"
| "adds (Settle t oc # es) = adds es"

text \<open>
  The number of completions in a sequence of events played from \<open>s\<close>: the \<open>Settle\<close>
  events that name a task running at that moment.
\<close>

fun completions :: "RequestQueue \<Rightarrow> event list \<Rightarrow> nat" where
  "completions s [] = 0"
| "completions s (e # es) =
     (case e of
        Settle t oc \<Rightarrow> (if t \<in> set (running s) then 1 else 0)
      | Add t \<Rightarrow> 0) + completions (step s e) es"

text \<open>
  The completions that let the waiting tasks in: \<open>n\<close> times over, the task that has
  been running longest settles.
\<close>

fun drain :: "nat \<Rightarrow> RequestQueue \<Rightarrow> event list" where
  "drain 0 s = []"
| "drain (Suc n) s =
     (case running s of
        [] \<Rightarrow> []
      | t # ts \<Rightarrow> Settle t Fulfilled # drain n (step s (Settle t Fulfilled)))"

text \<open>
  The facts that every reachable state of the queue satisfies: the limit is 3, the count
  never exceeds it, every running task is counted, and a task waits only while the count
  is at the limit.
\<close>

definition queue_inv :: "RequestQueue \<Rightarrow> bool" where
  "queue_inv s \<longleftrightarrow>
     maxConcurrent s = 3 \<and> activeCount s \<le> 3 \<and> int (length (running s)) \<le> activeCount s \<and>
     (queue s \<noteq> [] \<longrightarrow> activeCount s = 3)"


section \<open>Scenes and settings\<close>

text \<open>
  A JavaScript string is a sequence of UTF-16 code units, and \<open>length\<close> counts them.
  A JavaScript number is modelled as a real, and no value is \<open>NaN\<close> or infinite.
  The durations of the export path are read in exact arithmetic. The frame loop is
  modelled with the rounding of its arithmetic, since what it draws at the end of a scene
  depends on it.
\<close>

type_synonym js_string = "16 word list"
type_synonym bytes = "8 word list"

record StoryboardScene =
  scene_id :: int
  originalText :: js_string
  visualDescription :: js_string
  images :: "js_string list"
  selectedImageIndex :: int
  isGeneratingImages :: bool
  audioData :: "bytes option"
  audioDuration :: "real option"

datatype ImageModelType = Gemini_image | Comfyui
datatype TTSProviderType = Gemini | Browser

text \<open>The fields of \<open>AppSettings\<close> that the modelled code reads.\<close>

record AppSettings =
  imageModel :: ImageModelType
  ttsProvider :: TTSProviderType
  ttsVoice :: js_string
  ttsRate :: real
  ttsPitch :: int


section \<open>What the browser and the generation service answer\<close>

datatype tts_reply = Request_rejects | Response "js_string option"

datatype mime = Video_mp4 | Video_webm_h264 | Video_webm

text \<open>
  \<open>ai\<close>: the client object exists. \<open>audioContext\<close>: \<open>getAudioContext()\<close> returns a
  context. \<open>resume_rejects\<close>: the context is suspended and \<open>ctx.resume()\<close> rejects.
  \<open>tts_generateContent text voice\<close>: the answer of the speech model, with the
  \<open>inlineData.data\<close> of its first part when there is one. \<open>atob\<close> and
  \<open>ctx_decodeAudioData\<close> return \<open>None\<close> where the browser function throws or rejects;
  the latter gives the duration of the decoded buffer in seconds.
\<close>

record env =
  ai :: bool
  audioContext :: bool
  resume_rejects :: bool
  tts_generateContent :: "js_string \<Rightarrow> js_string \<Rightarrow> tts_reply"
  atob :: "js_string \<Rightarrow> js_string option"
  ctx_decodeAudioData :: "bytes \<Rightarrow> real option"
  mediaRecorder :: bool
  canvas2d :: bool
  isTypeSupported :: "mime \<Rightarrow> bool"

definition decodeBase64 :: "env \<Rightarrow> js_string \<Rightarrow> bytes option" where
  "decodeBase64 e base64 = map_option (map ucast) (atob e base64)"

definition decodeAudioData :: "env \<Rightarrow> bytes \<Rightarrow> real option" where
  "decodeAudioData e data = ctx_decodeAudioData e data"


section \<open>Mutations of the scene list\<close>













section \<open>Audio acquisition (the first phase of \<open>handleExportVideo\<close>)\<close>

text \<open>The text handed to the speech model: \<open>scene.originalText || " "\<close>.\<close>

definition tts_text :: "StoryboardScene \<Rightarrow> js_string" where
  "tts_text scene = (if originalText scene = [] then [0x20] else originalText scene)"

text \<open>The duration written when no synthesis is configured, in seconds.\<close>

definition fallbackDuration :: "StoryboardScene \<Rightarrow> real" where
  "fallbackDuration scene =
     max 2 (real (if length (originalText scene) = 0 then 1 else length (originalText scene)) * 0.25)"

text \<open>
  The callback that \<open>handleExportVideo\<close> maps over the scenes. It returns the entry of
  \<open>updatedScenes\<close> for the scene and the texts it sent to the speech model. Every failure
  on the synthesis path ends in the empty \<open>catch\<close>, which leaves the entry as it was.
\<close>

definition acquireAudio :: "env \<Rightarrow> AppSettings \<Rightarrow> StoryboardScene \<Rightarrow> StoryboardScene \<times> js_string list" where
  "acquireAudio e st scene =
     (if audioData scene \<noteq> None then (scene, [])
      else if ttsProvider st = Gemini \<and> ai e then
        (case tts_generateContent e (tts_text scene) (ttsVoice st) of
           Request_rejects \<Rightarrow> (scene, [tts_text scene])
         | Response None \<Rightarrow> (scene, [tts_text scene])
         | Response (Some base64) \<Rightarrow>
             (if base64 = [] then (scene, [tts_text scene])
              else
                (case decodeBase64 e base64 of
                   None \<Rightarrow> (scene, [tts_text scene])
                 | Some rawBytes \<Rightarrow>
                     (case decodeAudioData e rawBytes of
                        None \<Rightarrow> (scene, [tts_text scene])
                      | Some duration \<Rightarrow>
                          (scene\<lparr>audioData := Some rawBytes, audioDuration := Some duration\<rparr>,
                           [tts_text scene])))))
      else (scene\<lparr>audioDuration := Some (fallbackDuration scene)\<rparr>, []))"

text \<open>
  The specification's notion of a text that is empty or only whitespace, with the
  whitespace and line-terminator code units of the language.
\<close>

definition is_whitespace :: "16 word \<Rightarrow> bool" where
  "is_whitespace c \<longleftrightarrow>
     c \<in> set [0x9, 0xA, 0xB, 0xC, 0xD, 0x20, 0xA0, 0x1680, 0x2000, 0x2001, 0x2002, 0x2003,
              0x2004, 0x2005, 0x2006, 0x2007, 0x2008, 0x2009, 0x200A, 0x2028, 0x2029, 0x202F,
              0x205F, 0x3000, 0xFEFF]"

definition whitespace_only :: "js_string \<Rightarrow> bool" where
  "whitespace_only t = list_all is_whitespace t"


section \<open>Rendering (\<open>recordVideo\<close>)\<close>

datatype export_error = Resume_failed | No_MediaRecorder | No_supported_codec | Decode_failed

definition rate :: "AppSettings \<Rightarrow> real" where
  "rate st = max 0.1 (min (ttsRate st) 4.0)"

text \<open>\<open>scene.audioDuration || 2\<close>: the stored duration unless it is missing or zero.\<close>

definition audioDuration_or_2 :: "StoryboardScene \<Rightarrow> real" where
  "audioDuration_or_2 scene =
     (case audioDuration scene of None \<Rightarrow> 2 | Some d \<Rightarrow> if d = 0 then 2 else d)"

text \<open>
  The duration of a scene in milliseconds. With audio the bytes are decoded again, and a
  rejection of the decoder leaves \<open>recordVideo\<close> as an exception.
\<close>

definition effectiveDuration :: "env \<Rightarrow> AppSettings \<Rightarrow> StoryboardScene \<Rightarrow> export_error + real" where
  "effectiveDuration e st scene =
     (case audioData scene of
        Some data \<Rightarrow>
          (case decodeAudioData e data of
             None \<Rightarrow> Inl Decode_failed
           | Some duration \<Rightarrow> Inr ((duration / rate st) * 1000))
      | None \<Rightarrow> Inr (audioDuration_or_2 scene * 1000 / rate st))"

text \<open>
  The arithmetic of the frame loop is that of double-precision numbers: every operation
  gives the exact result rounded to the nearest double. \<open>rnd\<close> stands for that
  rounding. What is used of it is that it keeps the order and leaves 0, 1 and 500, which
  are doubles, as they are.
\<close>

definition rounding :: "(real \<Rightarrow> real) \<Rightarrow> bool" where
  "rounding rnd \<longleftrightarrow> mono rnd \<and> rnd 0 = 0 \<and> rnd 1 = 1 \<and> rnd 500 = 500"

text \<open>
  One pass of the frame loop of a scene, for the duration of the scene and the elapsed
  time read at the top of the pass, both doubles. \<open>None\<close> is the \<open>break\<close>: nothing
  is drawn. Otherwise the frame is drawn with the zoom \<open>scale\<close>; \<open>crossfade\<close> is the
  \<open>globalAlpha\<close> with which the next scene's image is drawn over it, and \<open>None\<close> when
  that image is not drawn.
\<close>

record frame =
  progress :: real
  scale :: real
  image_drawn :: bool
  crossfade :: "real option"

definition renderTick :: "(real \<Rightarrow> real) \<Rightarrow> real \<Rightarrow> real \<Rightarrow> bool \<Rightarrow> bool \<Rightarrow> frame option" where
  "renderTick rnd effDuration elapsed img nextImg =
     (if elapsed \<ge> effDuration then None
      else Some \<lparr>progress = rnd (elapsed / effDuration),
                 scale = rnd (1.0 + rnd (rnd 0.08 * rnd (elapsed / effDuration))),
                 image_drawn = img,
                 crossfade = (if rnd (effDuration - elapsed) < 500 \<and> nextImg
                              then Some (rnd (1 - rnd (rnd (effDuration - elapsed) / 500)))
                              else None)\<rparr>)"

text \<open>The opacity with which the next scene's image appears in a frame.\<close>

definition nextImageOpacity :: "frame \<Rightarrow> real" where
  "nextImageOpacity f = (case crossfade f of None \<Rightarrow> 0 | Some a \<Rightarrow> a)"

text \<open>The opacity of the next scene's image at an elapsed time, when a frame is drawn then.\<close>

definition nextImageOpacityAt :: "(real \<Rightarrow> real) \<Rightarrow> real \<Rightarrow> real \<Rightarrow> bool \<Rightarrow> bool \<Rightarrow> real option" where
  "nextImageOpacityAt rnd effDuration elapsed img nextImg =
     map_option nextImageOpacity (renderTick rnd effDuration elapsed img nextImg)"

text \<open>The scene loop: the durations of the scenes in order, up to the first exception.\<close>

fun sceneLoop :: "env \<Rightarrow> AppSettings \<Rightarrow> StoryboardScene list \<Rightarrow> export_error + real list" where
  "sceneLoop e st [] = Inr []"
| "sceneLoop e st (scene # rest) =
     (case effectiveDuration e st scene of
        Inl err \<Rightarrow> Inl err
      | Inr d \<Rightarrow> (case sceneLoop e st rest of Inl err \<Rightarrow> Inl err | Inr ds \<Rightarrow> Inr (d # ds)))"

record video_file =
  mimeType :: mime
  sceneDurations :: "real list"

text \<open>
  \<open>recordVideo\<close>: an exception, a silent return without a file (no 2d context), or the
  file that is handed to the browser for download.
\<close>

definition recordVideo :: "env \<Rightarrow> AppSettings \<Rightarrow> StoryboardScene list \<Rightarrow> export_error + video_file option" where
  "recordVideo e st scenesToRecord =
     (if \<not> mediaRecorder e then Inl No_MediaRecorder
      else if \<not> canvas2d e then Inr None
      else
        (case find (isTypeSupported e) [Video_mp4, Video_webm_h264, Video_webm] of
           None \<Rightarrow> Inl No_supported_codec
         | Some m \<Rightarrow>
             (case sceneLoop e st scenesToRecord of
                Inl err \<Rightarrow> Inl err
              | Inr ds \<Rightarrow> Inr (Some \<lparr>mimeType = m, sceneDurations = ds\<rparr>))))"


section \<open>The export orchestrator (\<open>handleExportVideo\<close> and its button)\<close>

datatype progress_text = No_text | Generating_speech | Rendering_video

datatype effect =
    Alert_no_audio
  | Alert_export_error export_error
  | Speech_request js_string
  | Download video_file

text \<open>
  The state of \<open>AppContent\<close> that the export touches. \<open>pending\<close> and \<open>effects\<close> are
  instrumentation: \<open>pending\<close> holds, for every call of \<open>handleExportVideo\<close> that has set
  the flag and has not reached its \<open>finally\<close> block, the scenes and settings the call
  closed over; \<open>effects\<close> logs what the calls showed, requested and delivered.
\<close>

record app =
  scenes :: "StoryboardScene list"
  settings :: AppSettings
  isExporting :: bool
  exportProgress :: progress_text
  pending :: "(StoryboardScene list \<times> AppSettings) list"
  effects :: "effect list"

text \<open>\<open>handleExportVideo\<close> up to its first \<open>await\<close>.\<close>

definition handleExportVideo_begin :: "env \<Rightarrow> app \<Rightarrow> app" where
  "handleExportVideo_begin e a =
     (if length (scenes a) = 0 then a
      else if \<not> audioContext e then a\<lparr>effects := effects a @ [Alert_no_audio]\<rparr>
      else a\<lparr>isExporting := True, exportProgress := Generating_speech,
              pending := pending a @ [(scenes a, settings a)]\<rparr>)"

text \<open>
  The rest of the oldest pending call, from the \<open>try\<close> block to the end of the
  \<open>finally\<close> block.
\<close>

definition handleExportVideo_rest :: "env \<Rightarrow> app \<Rightarrow> app" where
  "handleExportVideo_rest e a =
     (case pending a of
        [] \<Rightarrow> a
      | (snapshot, st) # others \<Rightarrow>
          (let a1 =
             (if resume_rejects e
              then a\<lparr>effects := effects a @ [Alert_export_error Resume_failed]\<rparr>
              else
                (let acquired = map (acquireAudio e st) snapshot;
                     updatedScenes = map fst acquired;
                     a2 = a\<lparr>scenes := updatedScenes, exportProgress := Rendering_video,
                             effects := effects a @ map Speech_request (concat (map snd acquired))\<rparr>
                 in case recordVideo e st updatedScenes of
                      Inl err \<Rightarrow> a2\<lparr>effects := effects a2 @ [Alert_export_error err]\<rparr>
                    | Inr None \<Rightarrow> a2
                    | Inr (Some file) \<Rightarrow> a2\<lparr>effects := effects a2 @ [Download file]\<rparr>))
           in a1\<lparr>isExporting := False, exportProgress := No_text, pending := others\<rparr>))"

text \<open>
  What can happen to the application: a click on the export button, which the header
  renders with \<open>disabled={isExporting}\<close>, so that a click while the flag is set calls
  nothing; the pending export running to its end; and any other update of the scenes or
  the settings.
\<close>

datatype app_event =
    Click_export
  | Export_runs
  | Set_scenes "StoryboardScene list"
  | Set_settings AppSettings

fun app_step :: "env \<Rightarrow> app \<Rightarrow> app_event \<Rightarrow> app" where
  "app_step e a Click_export = (if isExporting a then a else handleExportVideo_begin e a)"
| "app_step e a Export_runs = handleExportVideo_rest e a"
| "app_step e a (Set_scenes scs) = a\<lparr>scenes := scs\<rparr>"
| "app_step e a (Set_settings st) = a\<lparr>settings := st\<rparr>"

fun app_run :: "env \<Rightarrow> app \<Rightarrow> app_event list \<Rightarrow> app" where
  "app_run e a [] = a"
| "app_run e a (ev # evs) = app_run e (app_step e a ev) evs"

text \<open>A state in which no export is under way.\<close>

definition idle :: "app \<Rightarrow> bool" where
  "idle a \<longleftrightarrow> \<not> isExporting a \<and> pending a = []"

text \<open>The flag is set exactly while one call of the export is pending, and never more than one is.\<close>

definition one_export :: "app \<Rightarrow> bool" where
  "one_export a \<longleftrightarrow> length (pending a) \<le> 1 \<and> (isExporting a \<longleftrightarrow> pending a \<noteq> [])"


section \<open>Values of the source and sample environments\<close>

text \<open>\<open>DEFAULT_SETTINGS\<close>, with the voice name \<open>Kore\<close> in code units.\<close>

definition DEFAULT_SETTINGS :: AppSettings where
  "DEFAULT_SETTINGS =
     \<lparr>imageModel = Gemini_image, ttsProvider = Gemini, ttsVoice = [0x4B, 0x6F, 0x72, 0x65],
      ttsRate = 1.0, ttsPitch = 0\<rparr>"

text \<open>A scene as \<open>handleAnalyze\<close> builds it: no images, index 0, no audio fields.\<close>

definition newScene :: "int \<Rightarrow> js_string \<Rightarrow> js_string \<Rightarrow> StoryboardScene" where
  "newScene i text description =
     \<lparr>scene_id = i, originalText = text, visualDescription = description, images = [],
      selectedImageIndex = 0, isGeneratingImages = False, audioData = None, audioDuration = None\<rparr>"

text \<open>A browser with every capability, talking to a speech service whose requests all fail.\<close>

definition failing_service :: env where
  "failing_service =
     \<lparr>ai = True, audioContext = True, resume_rejects = False,
      tts_generateContent = (\<lambda>text voice. Request_rejects),
      atob = (\<lambda>b. None), ctx_decodeAudioData = (\<lambda>d. None),
      mediaRecorder = True, canvas2d = True, isTypeSupported = (\<lambda>m. m = Video_webm)\<rparr>"

text \<open>
  The same browser with a service that answers every request with the same four
  characters, which decode to three bytes holding one and a half seconds of sound.
\<close>

definition working_service :: env where
  "working_service =
     \<lparr>ai = True, audioContext = True, resume_rejects = False,
      tts_generateContent = (\<lambda>text voice. Response (Some [0x41, 0x51, 0x49, 0x44])),
      atob = (\<lambda>b. Some [0x1, 0x2, 0x3]), ctx_decodeAudioData = (\<lambda>d. Some 1.5),
      mediaRecorder = True, canvas2d = True, isTypeSupported = (\<lambda>m. m = Video_webm)\<rparr>"


text \<open>
  A rounding for examples, to the nearest quarter. Doubles are rounded in the same way,
  on a much finer grid.
\<close>

definition to_quarters :: "real \<Rightarrow> real" where
  "to_quarters x = of_int (round (x * 4)) / 4"


section \<open>Properties of the task queue\<close>

lemma int_length_remove1:
  "t \<in> set xs \<Longrightarrow> int (length (remove1 t xs)) = int (length xs) - 1"
  by (induction xs) auto

lemma queue_inv_process:
  "maxConcurrent s = 3 \<Longrightarrow> activeCount s \<le> 3 \<Longrightarrow> int (length (running s)) \<le> activeCount s \<Longrightarrow>
   (activeCount s < 2 \<longrightarrow> length (queue s) \<le> 1) \<Longrightarrow> queue_inv (fst (process s))"
  by (auto simp: queue_inv_def process_def Let_def split: list.splits)

lemma queue_inv_step: "queue_inv s \<Longrightarrow> queue_inv (step s e)"
proof (cases e)
  case (Add t)
  assume "queue_inv s"
  then show ?thesis unfolding Add step.simps add_def
    by (intro queue_inv_process) (auto simp: queue_inv_def)
next
  case (Settle t oc)
  assume i: "queue_inv s"
  show ?thesis
  proof (cases "t \<in> set (running s)")
    case True
    with i show ?thesis unfolding Settle step.simps settled_def
      apply (simp only: if_True)
      by (intro queue_inv_process) (auto simp: queue_inv_def int_length_remove1)
  next
    case False
    with i show ?thesis by (simp add: Settle settled_def)
  qed
qed

lemma queue_inv_run: "queue_inv s \<Longrightarrow> queue_inv (run s es)"
  by (induction es arbitrary: s) (auto simp: queue_inv_step)

lemma queue_inv_initial: "queue_inv imageGenQueue"
  by (simp add: queue_inv_def imageGenQueue_def)

lemma run_append: "run s (es @ es') = run (run s es) es'"
  by (induction es arbitrary: s) auto

lemma adds_append: "adds (es @ es') = adds es @ adds es'"
  by (induction es rule: adds.induct) auto

lemma fifo_step: "started (step s e) @ queue (step s e) = started s @ queue s @ adds [e]"
  by (cases e) (auto simp: add_def settled_def process_def Let_def split: list.splits)

lemma fifo_run: "started (run s es) @ queue (run s es) = started s @ queue s @ adds es"
proof (induction es arbitrary: s)
  case Nil
  show ?case by simp
next
  case (Cons e es)
  have "adds (e # es) = adds [e] @ adds es"
    using adds_append[of "[e]" es] by simp
  then show ?case using Cons[of "step s e"] fifo_step[of s e] by simp
qed

lemma progress_step:
  "queue_inv s \<Longrightarrow>
   min (completions s [e] + k) (length (queue s)) + length (started s)
     \<le> length (started (step s e)) + min k (length (queue (step s e)))"
proof (cases e)
  case (Add t)
  assume "queue_inv s"
  then show ?thesis unfolding Add
    by (auto simp: add_def process_def Let_def queue_inv_def split: list.splits)
next
  case (Settle t oc)
  assume "queue_inv s"
  then show ?thesis unfolding Settle
    by (auto simp: settled_def process_def Let_def queue_inv_def split: list.splits)
qed

lemma progress_run:
  "queue_inv s \<Longrightarrow>
   length (started s) + min (completions s es) (length (queue s)) \<le> length (started (run s es))"
proof (induction es arbitrary: s)
  case Nil
  show ?case by simp
next
  case (Cons e es)
  have c: "completions s (e # es) = completions s [e] + completions (step s e) es"
    by simp
  from Cons.prems have "queue_inv (step s e)" by (rule queue_inv_step)
  from Cons.IH[OF this] progress_step[OF Cons.prems, of e "completions (step s e) es"]
  show ?case unfolding c run.simps by linarith
qed

lemma queue_process_subset: "set (queue (fst (process s))) \<subseteq> set (queue s)"
  by (auto simp: process_def Let_def split: list.splits)

lemma counted_process:
  "\<forall>t\<in>set (queue s). \<not> throws_on_call t \<Longrightarrow> activeCount s = int (length (running s)) \<Longrightarrow>
   activeCount (fst (process s)) = int (length (running (fst (process s))))"
  by (auto simp: process_def Let_def split: list.splits)

lemma counted_step:
  assumes "\<forall>t\<in>set (queue s @ adds [e]). \<not> throws_on_call t"
    and "activeCount s = int (length (running s))"
  shows "activeCount (step s e) = int (length (running (step s e)))"
proof (cases e)
  case (Add t)
  from assms show ?thesis unfolding Add step.simps add_def
    by (intro counted_process) auto
next
  case (Settle t oc)
  from assms show ?thesis unfolding Settle step.simps settled_def
    by (auto intro!: counted_process simp: int_length_remove1)
qed

lemma queue_step_subset: "set (queue (step s e)) \<subseteq> set (queue s @ adds [e])"
proof (cases e)
  case (Add t)
  show ?thesis using queue_process_subset[of "s\<lparr>queue := queue s @ [t]\<rparr>"]
    by (simp add: Add add_def)
next
  case (Settle t oc)
  show ?thesis
    using queue_process_subset[of "s\<lparr>running := remove1 t (running s), activeCount := activeCount s - 1\<rparr>"]
    by (auto simp add: Settle settled_def)
qed

lemma counted_run:
  "\<forall>t\<in>set (queue s @ adds es). \<not> throws_on_call t \<Longrightarrow> activeCount s = int (length (running s)) \<Longrightarrow>
   activeCount (run s es) = int (length (running (run s es)))"
proof (induction es arbitrary: s)
  case Nil
  then show ?case by simp
next
  case (Cons e es)
  have a: "adds (e # es) = adds [e] @ adds es"
    using adds_append[of "[e]" es] by simp
  from Cons.prems(1) have 1: "\<forall>t\<in>set (queue s @ adds [e]). \<not> throws_on_call t"
    unfolding a by auto
  from Cons.prems(1) queue_step_subset[of s e]
  have 2: "\<forall>t\<in>set (queue (step s e) @ adds es). \<not> throws_on_call t"
    unfolding a by auto
  from Cons.IH[OF 2 counted_step[OF 1 Cons.prems(2)]] show ?case by simp
qed

lemma settle_admits_head:
  assumes inv: "queue_inv s" and r: "running s = t # ts" and q: "queue s = h # rest"
  shows "queue (step s (Settle t oc)) = rest"
proof -
  let ?d = "s\<lparr>running := remove1 t (running s), activeCount := activeCount s - 1\<rparr>"
  have "activeCount ?d < maxConcurrent ?d" using inv by (simp add: queue_inv_def)
  moreover have "queue ?d = h # rest" using q by simp
  ultimately have "queue (fst (process ?d)) = rest"
    by (simp add: process_def Let_def)
  then show ?thesis using r by (simp add: settled_def)
qed

text \<open>
  While no waiting task throws on being called and every counted task is running, the
  completions of \<open>drain\<close> all happen, and none of them adds a task.
\<close>

lemma drain_completes:
  "queue_inv s \<Longrightarrow> activeCount s = int (length (running s)) \<Longrightarrow>
   \<forall>t\<in>set (queue s). \<not> throws_on_call t \<Longrightarrow> n \<le> length (queue s) \<Longrightarrow>
   completions s (drain n s) = n \<and> adds (drain n s) = []"
proof (induction n arbitrary: s)
  case 0
  show ?case by simp
next
  case (Suc n)
  from Suc.prems(4) obtain h rest where q: "queue s = h # rest"
    by (cases "queue s") auto
  with Suc.prems(1) have "activeCount s = 3" by (simp add: queue_inv_def)
  with Suc.prems(2) obtain t ts where r: "running s = t # ts"
    by (cases "running s") auto
  let ?s = "step s (Settle t Fulfilled)"
  have q': "queue ?s = rest"
    using Suc.prems(1) r q by (rule settle_admits_head)
  have 1: "queue_inv ?s" using Suc.prems(1) by (rule queue_inv_step)
  have 2: "activeCount ?s = int (length (running ?s))"
    using Suc.prems(3) Suc.prems(2) by (intro counted_step) simp_all
  have 3: "\<forall>t\<in>set (queue ?s). \<not> throws_on_call t"
    using Suc.prems(3) q q' by simp
  have 4: "n \<le> length (queue ?s)" using Suc.prems(4) q q' by simp
  from Suc.IH[OF 1 2 3 4] r show ?case by simp
qed

text \<open>
  A queue whose count is at the limit while nothing is running stays as it is: no
  completion can come, and every added task waits.
\<close>

lemma stuck_step:
  "maxConcurrent s \<le> activeCount s \<Longrightarrow> running s = [] \<Longrightarrow>
   maxConcurrent (step s e) \<le> activeCount (step s e) \<and> running (step s e) = [] \<and>
   started (step s e) = started s"
  by (cases e) (simp_all add: add_def settled_def process_def)

lemma stuck_run:
  "maxConcurrent s \<le> activeCount s \<Longrightarrow> running s = [] \<Longrightarrow> started (run s es) = started s"
proof (induction es arbitrary: s)
  case Nil
  show ?case by simp
next
  case (Cons e es)
  from stuck_step[OF Cons.prems, of e] Cons.IH[of "step s e"] show ?case by simp
qed

text \<open>
  C1, as the code has it. Whatever sequence of additions and completions the queue goes
  through from its initial state: the limit is 3 and at most 3 tasks are running; the
  tasks called so far, followed by the waiting ones, are the added tasks in the order of
  their addition, so that tasks are admitted first in, first out, none is lost and none
  is called twice; and once as many completions have happened as tasks were waiting,
  every task added so far has been called, each once. When no added task throws on being
  called, three tasks are running whenever a task waits, and the completions of the
  running tasks are enough: letting the longest-running task settle as many times as
  tasks are waiting empties the waiting line, with every added task called exactly once.
  What becomes of the waiting tasks after a task has thrown on being called is not part
  of this statement.
\<close>

theorem request_queue_bound_fifo_once:
  "maxConcurrent (run imageGenQueue es) = 3 \<and>
   length (running (run imageGenQueue es)) \<le> 3 \<and>
   started (run imageGenQueue es) @ queue (run imageGenQueue es) = adds es \<and>
   (length (queue (run imageGenQueue es)) \<le> completions (run imageGenQueue es) es' \<longrightarrow>
      take (length (adds es)) (started (run imageGenQueue (es @ es'))) = adds es \<and>
      started (run imageGenQueue (es @ es')) @ queue (run imageGenQueue (es @ es'))
        = adds es @ adds es') \<and>
   ((\<forall>t\<in>set (adds es). \<not> throws_on_call t) \<longrightarrow>
      (queue (run imageGenQueue es) \<noteq> [] \<longrightarrow> length (running (run imageGenQueue es)) = 3) \<and>
      completions (run imageGenQueue es)
        (drain (length (queue (run imageGenQueue es))) (run imageGenQueue es))
        = length (queue (run imageGenQueue es)) \<and>
      started (run imageGenQueue
        (es @ drain (length (queue (run imageGenQueue es))) (run imageGenQueue es))) = adds es \<and>
      queue (run imageGenQueue
        (es @ drain (length (queue (run imageGenQueue es))) (run imageGenQueue es))) = [])"
proof -
  let ?s = "run imageGenQueue es"
  have inv: "queue_inv ?s"
    using queue_inv_initial by (rule queue_inv_run)
  have fifo: "started ?s @ queue ?s = adds es"
    using fifo_run[of imageGenQueue es] by (simp add: imageGenQueue_def)
  have fifo': "started (run imageGenQueue (es @ es'')) @ queue (run imageGenQueue (es @ es''))
      = adds es @ adds es''" for es''
    using fifo_run[of imageGenQueue "es @ es''"] by (simp add: imageGenQueue_def adds_append)
  have bound: "length (running ?s) \<le> 3"
    using inv by (simp add: queue_inv_def)
  have enough: "take (length (adds es)) (started (run imageGenQueue (es @ es''))) = adds es"
    if "length (queue ?s) \<le> completions ?s es''" for es''
  proof -
    let ?s' = "run imageGenQueue (es @ es'')"
    have "length (started ?s) + length (queue ?s) \<le> length (started ?s')"
      using progress_run[OF inv, of es''] that by (simp add: run_append)
    moreover have "length (adds es) = length (started ?s) + length (queue ?s)"
      using arg_cong[OF fifo, of length] by simp
    ultimately have "length (adds es) \<le> length (started ?s')" by simp
    then have "take (length (adds es)) (started ?s') = take (length (adds es)) (started ?s' @ queue ?s')"
      by simp
    also have "\<dots> = adds es" unfolding fifo' by simp
    finally show ?thesis .
  qed
  have promises: "(queue ?s \<noteq> [] \<longrightarrow> length (running ?s) = 3) \<and>
      completions ?s (drain (length (queue ?s)) ?s) = length (queue ?s) \<and>
      started (run imageGenQueue (es @ drain (length (queue ?s)) ?s)) = adds es \<and>
      queue (run imageGenQueue (es @ drain (length (queue ?s)) ?s)) = []"
    if nt: "\<forall>t\<in>set (adds es). \<not> throws_on_call t"
  proof -
    let ?d = "drain (length (queue ?s)) ?s"
    let ?s' = "run imageGenQueue (es @ ?d)"
    have counted: "activeCount ?s = int (length (running ?s))"
      using nt by (intro counted_run) (simp_all add: imageGenQueue_def)
    have busy: "length (running ?s) = 3" if "queue ?s \<noteq> []"
      using inv that counted by (simp add: queue_inv_def)
    have "set (queue ?s) \<subseteq> set (adds es)"
      using arg_cong[OF fifo, of set] by auto
    with nt have ntq: "\<forall>t\<in>set (queue ?s). \<not> throws_on_call t" by auto
    from drain_completes[OF inv counted ntq order_refl]
    have c: "completions ?s ?d = length (queue ?s)" and a: "adds ?d = []" by simp_all
    from c have t: "take (length (adds es)) (started ?s') = adds es"
      by (intro enough) simp
    from fifo'[of ?d] a have f: "started ?s' @ queue ?s' = adds es" by simp
    have "started ?s' = take (length (adds es)) (started ?s') @ drop (length (adds es)) (started ?s')"
      by simp
    with t have "started ?s' = adds es @ drop (length (adds es)) (started ?s')" by simp
    with f have "adds es @ drop (length (adds es)) (started ?s') @ queue ?s' = adds es @ []"
      by (metis append.assoc append_Nil2)
    then have "drop (length (adds es)) (started ?s') @ queue ?s' = []" by (simp only: same_append_eq)
    then have "queue ?s' = []" by simp
    with f have "started ?s' = adds es" by simp
    with busy c \<open>queue ?s' = []\<close> show ?thesis by simp
  qed
  from inv bound fifo fifo'[of es'] enough[of es'] promises show ?thesis
    by (simp add: queue_inv_def)
qed

theorem request_queue_bound_fifo_once_witness:
  "list_all (\<lambda>t. \<not> throws_on_call t) (adds (map Add [Task 1 False, Task 2 False, Task 3 False, Task 4 False, Task 5 False])) \<and>
   queue (run imageGenQueue (map Add [Task 1 False, Task 2 False, Task 3 False, Task 4 False, Task 5 False]))
     = [Task 4 False, Task 5 False] \<and>
   length (running (run imageGenQueue (map Add [Task 1 False, Task 2 False, Task 3 False, Task 4 False, Task 5 False]))) = 3 \<and>
   completions (run imageGenQueue (map Add [Task 1 False, Task 2 False, Task 3 False, Task 4 False, Task 5 False]))
     [Settle (Task 2 False) Rejected, Settle (Task 1 False) Fulfilled] = 2 \<and>
   take 5 (started (run imageGenQueue
     (map Add [Task 1 False, Task 2 False, Task 3 False, Task 4 False, Task 5 False]
        @ [Settle (Task 2 False) Rejected, Settle (Task 1 False) Fulfilled])))
     = [Task 1 False, Task 2 False, Task 3 False, Task 4 False, Task 5 False] \<and>
   started (run imageGenQueue
     (map Add [Task 1 False, Task 2 False, Task 3 False, Task 4 False, Task 5 False]
        @ [Settle (Task 1 False) Fulfilled, Settle (Task 2 False) Fulfilled]))
     = [Task 1 False, Task 2 False, Task 3 False, Task 4 False, Task 5 False]"
proof -
  let ?es = "map Add [Task 1 False, Task 2 False, Task 3 False, Task 4 False, Task 5 False]"
  let ?s = "run imageGenQueue ?es"
  let ?c = "[Settle (Task 2 False) Rejected, Settle (Task 1 False) Fulfilled]"
  let ?d = "[Settle (Task 1 False) Fulfilled, Settle (Task 2 False) Fulfilled]"
  have s: "?s =
      \<lparr>queue = [Task 4 False, Task 5 False], activeCount = 3, maxConcurrent = 3,
       started = [Task 1 False, Task 2 False, Task 3 False],
       running = [Task 1 False, Task 2 False, Task 3 False]\<rparr>"
    by (simp add: imageGenQueue_def add_def process_def Let_def)
  have a: "adds ?es = [Task 1 False, Task 2 False, Task 3 False, Task 4 False, Task 5 False]"
    by simp
  have q: "queue ?s = [Task 4 False, Task 5 False]" unfolding s by simp
  have r: "length (running ?s) = 3" unfolding s by simp
  have c: "completions ?s ?c = 2"
    unfolding s by (simp add: settled_def process_def Let_def)
  have d: "drain (length (queue ?s)) ?s = ?d"
    unfolding s by (simp add: settled_def process_def Let_def)
  have l: "list_all (\<lambda>t. \<not> throws_on_call t) (adds ?es)" unfolding a by simp
  then have nt: "\<forall>t\<in>set (adds ?es). \<not> throws_on_call t" by (simp only: list_all_iff)
  have p: "length (queue ?s) \<le> completions ?s ?c" unfolding q c by simp
  note t = request_queue_bound_fifo_once[of ?es ?c]
  from t p have "take (length (adds ?es)) (started (run imageGenQueue (?es @ ?c))) = adds ?es"
    by blast
  moreover have "length [Task 1 False, Task 2 False, Task 3 False, Task 4 False, Task 5 False] = 5"
    by simp
  ultimately have 1: "take 5 (started (run imageGenQueue (?es @ ?c)))
      = [Task 1 False, Task 2 False, Task 3 False, Task 4 False, Task 5 False]"
    unfolding a by (simp only:)
  from t nt have "started (run imageGenQueue (?es @ drain (length (queue ?s)) ?s)) = adds ?es"
    by blast
  then have 2: "started (run imageGenQueue (?es @ ?d))
      = [Task 1 False, Task 2 False, Task 3 False, Task 4 False, Task 5 False]"
    unfolding d a .
  from l q r c 1 2 show ?thesis by blast
qed

text \<open>
  C1 as stated fails when tasks throw on being called. After three such tasks the count
  is at the limit and nothing is running; a fourth task, which would return a promise,
  waits, and whatever follows, additions or completions, it is never called.
\<close>

theorem task_behind_throwing_tasks_never_starts:
  "queue (run imageGenQueue [Add (Task 1 True), Add (Task 2 True), Add (Task 3 True), Add (Task 4 False)])
     = [Task 4 False] \<and>
   (\<forall>es'. started (run imageGenQueue
            ([Add (Task 1 True), Add (Task 2 True), Add (Task 3 True), Add (Task 4 False)] @ es'))
          = [Task 1 True, Task 2 True, Task 3 True]) \<and>
   (\<forall>es'. Task 4 False \<notin> set (started (run imageGenQueue
            ([Add (Task 1 True), Add (Task 2 True), Add (Task 3 True), Add (Task 4 False)] @ es'))))"
proof -
  let ?es = "[Add (Task 1 True), Add (Task 2 True), Add (Task 3 True), Add (Task 4 False)]"
  have s: "run imageGenQueue ?es =
      \<lparr>queue = [Task 4 False], activeCount = 3, maxConcurrent = 3,
       started = [Task 1 True, Task 2 True, Task 3 True], running = []\<rparr>"
    by (simp add: imageGenQueue_def add_def process_def Let_def)
  have "started (run (run imageGenQueue ?es) es') = [Task 1 True, Task 2 True, Task 3 True]" for es'
    using stuck_run[of "run imageGenQueue ?es" es'] unfolding s by simp
  then have "started (run imageGenQueue (?es @ es')) = [Task 1 True, Task 2 True, Task 3 True]" for es'
    by (simp only: run_append)
  then show ?thesis using s by simp
qed

lemma process_admits_head:
  "activeCount s < maxConcurrent s \<Longrightarrow> queue s = h # rest \<Longrightarrow>
   queue (fst (process s)) = rest \<and> started (fst (process s)) = started s @ [h] \<and>
   activeCount (fst (process s)) = activeCount s + 1 \<and> snd (process s) = throws_on_call h"
  by (simp add: process_def Let_def)

lemma process_idle: "queue s = [] \<Longrightarrow> process s = (s, False)"
  by (simp add: process_def)

text \<open>
  C2, as the code has it. When the promise of a running task settles, fulfilled or
  rejected alike, the count goes down by one and the task at the head of the waiting
  line, if there is one, is called: exactly one, and the count is back where it was. The
  queue is in the same state after a rejection as after a fulfilment, and an exception
  leaves the callback only if the task it calls throws on being called. What becomes of
  the count when a task throws on being called is not part of this statement.
\<close>

theorem settled_promise_admits_one:
  "t \<in> set (running (run imageGenQueue es)) \<Longrightarrow>
   fst (settled (run imageGenQueue es) t Rejected) = fst (settled (run imageGenQueue es) t Fulfilled) \<and>
   (case queue (run imageGenQueue es) of
      [] \<Rightarrow>
        activeCount (fst (settled (run imageGenQueue es) t oc)) = activeCount (run imageGenQueue es) - 1 \<and>
        started (fst (settled (run imageGenQueue es) t oc)) = started (run imageGenQueue es) \<and>
        queue (fst (settled (run imageGenQueue es) t oc)) = [] \<and>
        \<not> snd (settled (run imageGenQueue es) t oc)
    | h # rest \<Rightarrow>
        activeCount (fst (settled (run imageGenQueue es) t oc)) = activeCount (run imageGenQueue es) \<and>
        started (fst (settled (run imageGenQueue es) t oc)) = started (run imageGenQueue es) @ [h] \<and>
        queue (fst (settled (run imageGenQueue es) t oc)) = rest \<and>
        snd (settled (run imageGenQueue es) t oc) = throws_on_call h)"
proof -
  assume r: "t \<in> set (running (run imageGenQueue es))"
  let ?s = "run imageGenQueue es"
  let ?d = "?s\<lparr>running := remove1 t (running ?s), activeCount := activeCount ?s - 1\<rparr>"
  have inv: "queue_inv ?s"
    using queue_inv_initial by (rule queue_inv_run)
  have s: "settled ?s t oc = process ?d" for oc
    using r by (simp add: settled_def)
  have lt: "activeCount ?d < maxConcurrent ?d"
    using inv by (simp add: queue_inv_def)
  show ?thesis
  proof (cases "queue ?s")
    case Nil
    then have "process ?d = (?d, False)" by (intro process_idle) simp
    with Nil show ?thesis by (simp add: s)
  next
    case (Cons h rest)
    then have q: "queue ?d = h # rest" by simp
    from process_admits_head[OF lt q] Cons show ?thesis by (simp add: s)
  qed
qed

theorem settled_promise_admits_one_witness:
  "Task 2 False \<in> set (running (run imageGenQueue (map Add [Task 1 False, Task 2 False, Task 3 False, Task 4 False]))) \<and>
   queue (run imageGenQueue (map Add [Task 1 False, Task 2 False, Task 3 False, Task 4 False])) = [Task 4 False] \<and>
   activeCount (fst (settled (run imageGenQueue (map Add [Task 1 False, Task 2 False, Task 3 False, Task 4 False]))
      (Task 2 False) Rejected)) = 3 \<and>
   started (fst (settled (run imageGenQueue (map Add [Task 1 False, Task 2 False, Task 3 False, Task 4 False]))
      (Task 2 False) Rejected)) = [Task 1 False, Task 2 False, Task 3 False, Task 4 False] \<and>
   queue (fst (settled (run imageGenQueue (map Add [Task 1 False, Task 2 False, Task 3 False, Task 4 False]))
      (Task 2 False) Rejected)) = []"
  using settled_promise_admits_one
    [of "Task 2 False" "map Add [Task 1 False, Task 2 False, Task 3 False, Task 4 False]" Fulfilled]
  by (simp add: imageGenQueue_def add_def process_def Let_def)

text \<open>
  C2 as stated fails for a task that throws on being called. Added to the empty queue,
  such a task is called, the exception leaves \<open>add\<close>, and the count stays at 1 with
  nothing running. After three of them the count is at the limit with nothing running, so
  that a fourth task waits and no completion is left to admit it.
\<close>

theorem throwing_task_keeps_its_slot:
  "snd (add imageGenQueue (Task 1 True)) \<and>
   activeCount (fst (add imageGenQueue (Task 1 True))) = 1 \<and>
   running (fst (add imageGenQueue (Task 1 True))) = [] \<and>
   activeCount (run imageGenQueue [Add (Task 1 True), Add (Task 2 True), Add (Task 3 True), Add (Task 4 False)]) = 3 \<and>
   running (run imageGenQueue [Add (Task 1 True), Add (Task 2 True), Add (Task 3 True), Add (Task 4 False)]) = [] \<and>
   queue (run imageGenQueue [Add (Task 1 True), Add (Task 2 True), Add (Task 3 True), Add (Task 4 False)])
     = [Task 4 False] \<and>
   started (run imageGenQueue [Add (Task 1 True), Add (Task 2 True), Add (Task 3 True), Add (Task 4 False)])
     = [Task 1 True, Task 2 True, Task 3 True]"
  by (simp add: imageGenQueue_def add_def process_def Let_def)

section \<open>Properties of the export path\<close>

lemma rate_bounds: "0.1 \<le> rate st \<and> rate st \<le> 4"
  by (simp add: rate_def)

lemma fallbackDuration_of_8:
  "length (originalText scene) = 8 \<Longrightarrow> fallbackDuration scene = 2"
  by (simp add: fallbackDuration_def)

lemma acquireAudio_without_audio:
  "audioData scene = None \<Longrightarrow> audioData (fst (acquireAudio e st scene)) = None \<Longrightarrow>
   fst (acquireAudio e st scene) = scene \<or>
   fst (acquireAudio e st scene) = scene\<lparr>audioDuration := Some (fallbackDuration scene)\<rparr>"
  by (auto simp: acquireAudio_def split: tts_reply.splits option.splits if_splits)

lemma fallbackDuration_by_length:
  "fallbackDuration scene = max 2 (real (length (originalText scene)) * 0.25)"
  by (simp add: fallbackDuration_def)

lemma acquireAudio_with_audio:
  "audioData scene = None \<Longrightarrow> audioData (fst (acquireAudio e st scene)) = Some data \<Longrightarrow>
   \<exists>d. decodeAudioData e data = Some d \<and> audioDuration (fst (acquireAudio e st scene)) = Some d"
  by (auto simp: acquireAudio_def split: tts_reply.splits option.splits if_splits)

text \<open>
  C3, as the code has it, in exact arithmetic. The rate is the configured rate clamped
  to the interval from 0.1 to 4.0. A scene with audio lasts the decoded duration divided
  by the rate; after the acquisition phase that is the duration stored with the audio. A
  scene without audio lasts its stored duration, or 2 seconds when none (or zero) is
  stored, divided by the rate. The stored duration is the estimate
  \<open>max(2, length * 0.25)\<close> when no synthesis is configured; when synthesis is configured
  and gives no audio, a scene that had no duration still has none and lasts 2 seconds
  divided by the rate. The code holds all of these in milliseconds. A new scene with a
  text of length 8 that comes out of the acquisition phase without audio lasts 2.0 seconds
  at rate 1.0 and 1.0 seconds at rate 2.0. A configured rate of 10.0 becomes 4.0, and one
  of 0.01 becomes 0.1.
\<close>

theorem effective_duration_by_clamped_rate:
  "rate st = max 0.1 (min (ttsRate st) 4.0) \<and> 0.1 \<le> rate st \<and> rate st \<le> 4.0 \<and>
   (audioData scene = Some data \<longrightarrow> decodeAudioData e data = Some d \<longrightarrow>
      effectiveDuration e st scene = Inr (d / rate st * 1000)) \<and>
   (audioData scene = None \<longrightarrow>
      effectiveDuration e st scene =
        Inr ((case audioDuration scene of None \<Rightarrow> 2 | Some d \<Rightarrow> if d = 0 then 2 else d)
             * 1000 / rate st)) \<and>
   (audioData scene = None \<and> \<not> (ttsProvider st = Gemini \<and> ai e) \<longrightarrow>
      effectiveDuration e st (fst (acquireAudio e st scene)) =
        Inr (max 2 (real (length (originalText scene)) * 0.25) * 1000 / rate st)) \<and>
   (audioData scene = None \<and> audioDuration scene = None \<and> ttsProvider st = Gemini \<and> ai e \<and>
    audioData (fst (acquireAudio e st scene)) = None \<longrightarrow>
      effectiveDuration e st (fst (acquireAudio e st scene)) = Inr (2 * 1000 / rate st)) \<and>
   (audioData scene = None \<and> audioData (fst (acquireAudio e st scene)) \<noteq> None \<longrightarrow>
      (case audioDuration (fst (acquireAudio e st scene)) of
         None \<Rightarrow> False
       | Some stored \<Rightarrow>
           effectiveDuration e st (fst (acquireAudio e st scene)) = Inr (stored / rate st * 1000))) \<and>
   (audioData scene = None \<and> audioDuration scene = None \<and> length (originalText scene) = 8 \<and>
    audioData (fst (acquireAudio e st scene)) = None \<longrightarrow>
      (ttsRate st = 1.0 \<longrightarrow>
         effectiveDuration e st (fst (acquireAudio e st scene)) = Inr (2.0 * 1000)) \<and>
      (ttsRate st = 2.0 \<longrightarrow>
         effectiveDuration e st (fst (acquireAudio e st scene)) = Inr (1.0 * 1000))) \<and>
   (ttsRate st = 10.0 \<longrightarrow> rate st = 4.0) \<and>
   (ttsRate st = 0.01 \<longrightarrow> rate st = 0.1)"
proof -
  let ?sc = "fst (acquireAudio e st scene)"
  have clamp: "rate st = max 0.1 (min (ttsRate st) 4.0)"
    by (simp add: rate_def)
  have with_audio: "effectiveDuration e st sc = Inr (d / rate st * 1000)"
    if "audioData sc = Some data" "decodeAudioData e data = Some d" for sc data d
    using that by (simp add: effectiveDuration_def)
  have without_audio: "effectiveDuration e st sc =
      Inr ((case audioDuration sc of None \<Rightarrow> 2 | Some d \<Rightarrow> if d = 0 then 2 else d) * 1000 / rate st)"
    if "audioData sc = None" for sc
    using that by (simp add: effectiveDuration_def audioDuration_or_2_def)
  have estimate: "effectiveDuration e st ?sc =
      Inr (max 2 (real (length (originalText scene)) * 0.25) * 1000 / rate st)"
    if h: "audioData scene = None" "\<not> (ttsProvider st = Gemini \<and> ai e)"
  proof -
    from h have sc: "?sc = scene\<lparr>audioDuration := Some (fallbackDuration scene)\<rparr>"
      by (auto simp: acquireAudio_def)
    have "fallbackDuration scene \<noteq> 0" by (simp add: fallbackDuration_def)
    then show ?thesis
      using without_audio[of "scene\<lparr>audioDuration := Some (fallbackDuration scene)\<rparr>"] h(1)
      unfolding sc by (simp add: fallbackDuration_by_length)
  qed
  have default: "effectiveDuration e st ?sc = Inr (2 * 1000 / rate st)"
    if h: "audioData scene = None" "audioDuration scene = None" "ttsProvider st = Gemini" "ai e"
      "audioData ?sc = None"
  proof -
    from h have "?sc = scene"
      by (auto simp: acquireAudio_def split: tts_reply.splits option.splits if_splits)
    with without_audio[of scene] h(1) h(2) show ?thesis by simp
  qed
  have stored: "case audioDuration ?sc of None \<Rightarrow> False
      | Some stored \<Rightarrow> effectiveDuration e st ?sc = Inr (stored / rate st * 1000)"
    if h: "audioData scene = None" "audioData ?sc \<noteq> None"
  proof -
    from h(2) obtain data where a: "audioData ?sc = Some data" by auto
    from acquireAudio_with_audio[OF h(1) a] obtain d
      where d: "decodeAudioData e data = Some d" "audioDuration ?sc = Some d" by auto
    from with_audio[OF a d(1)] d(2) show ?thesis by simp
  qed
  have eight: "effectiveDuration e st ?sc = Inr (2 / rate st * 1000)"
    if h: "audioData scene = None" "audioDuration scene = None" "length (originalText scene) = 8"
      "audioData ?sc = None"
  proof -
    from acquireAudio_without_audio[OF h(1) h(4)]
    have "audioDuration_or_2 ?sc = 2"
      using h(2) fallbackDuration_of_8[OF h(3)] by (auto simp: audioDuration_or_2_def)
    with h(4) show ?thesis by (simp add: effectiveDuration_def)
  qed
  have r1: "rate st = 1" if "ttsRate st = 1" using that by (simp add: rate_def)
  have r2: "rate st = 2" if "ttsRate st = 2" using that by (simp add: rate_def)
  have r10: "rate st = 4.0" if "ttsRate st = 10.0" using that by (simp add: rate_def)
  have r001: "rate st = 0.1" if "ttsRate st = 0.01" using that by (simp add: rate_def)
  have bounds: "0.1 \<le> rate st" "rate st \<le> 4.0" using rate_bounds[of st] by simp_all
  have examples: "(ttsRate st = 1.0 \<longrightarrow> effectiveDuration e st ?sc = Inr (2.0 * 1000)) \<and>
      (ttsRate st = 2.0 \<longrightarrow> effectiveDuration e st ?sc = Inr (1.0 * 1000))"
    if "audioData scene = None \<and> audioDuration scene = None \<and> length (originalText scene) = 8 \<and>
      audioData ?sc = None"
    using eight that r1 r2 by auto
  from clamp bounds with_audio[of scene data d] without_audio[of scene]
    estimate default stored examples r10 r001
  show ?thesis by blast
qed

theorem effective_duration_by_clamped_rate_witness:
  "effectiveDuration working_service DEFAULT_SETTINGS
     (fst (acquireAudio working_service DEFAULT_SETTINGS (newScene 1 (replicate 8 0x61) []))) = Inr 1500 \<and>
   effectiveDuration failing_service DEFAULT_SETTINGS
     (fst (acquireAudio failing_service DEFAULT_SETTINGS (newScene 1 (replicate 8 0x61) []))) = Inr 2000 \<and>
   effectiveDuration failing_service (DEFAULT_SETTINGS\<lparr>ttsProvider := Browser, ttsRate := 2.0\<rparr>)
     (fst (acquireAudio failing_service (DEFAULT_SETTINGS\<lparr>ttsProvider := Browser, ttsRate := 2.0\<rparr>)
        (newScene 1 (replicate 8 0x61) []))) = Inr 1000 \<and>
   effectiveDuration failing_service (DEFAULT_SETTINGS\<lparr>ttsProvider := Browser\<rparr>)
     (fst (acquireAudio failing_service (DEFAULT_SETTINGS\<lparr>ttsProvider := Browser\<rparr>)
        (newScene 2 (replicate 20 0x61) []))) = Inr 5000 \<and>
   rate (DEFAULT_SETTINGS\<lparr>ttsRate := 10.0\<rparr>) = 4.0 \<and>
   rate (DEFAULT_SETTINGS\<lparr>ttsRate := 0.01\<rparr>) = 0.1"
proof -
  let ?sc = "newScene 1 (replicate 8 0x61) []"
  let ?long = "newScene 2 (replicate 20 0x61) []"
  let ?st2 = "DEFAULT_SETTINGS\<lparr>ttsProvider := Browser, ttsRate := 2.0\<rparr>"
  let ?st3 = "DEFAULT_SETTINGS\<lparr>ttsProvider := Browser\<rparr>"
  have a: "audioData (fst (acquireAudio working_service DEFAULT_SETTINGS ?sc)) \<noteq> None"
    "audioDuration (fst (acquireAudio working_service DEFAULT_SETTINGS ?sc)) = Some 1.5"
    by (simp_all add: acquireAudio_def working_service_def DEFAULT_SETTINGS_def newScene_def
        tts_text_def decodeBase64_def decodeAudioData_def)
  have b: "audioData (fst (acquireAudio failing_service DEFAULT_SETTINGS ?sc)) = None"
    by (simp add: acquireAudio_def failing_service_def DEFAULT_SETTINGS_def newScene_def)
  have c: "audioData (fst (acquireAudio failing_service ?st2 ?sc)) = None"
    by (simp add: acquireAudio_def failing_service_def DEFAULT_SETTINGS_def newScene_def)
  have s: "audioData ?sc = None" "audioDuration ?sc = None" "length (originalText ?sc) = 8"
    "audioData ?long = None" "length (originalText ?long) = 20"
    by (simp_all add: newScene_def)
  have r: "rate DEFAULT_SETTINGS = 1" "rate ?st3 = 1" "\<not> (ttsProvider ?st3 = Gemini \<and> ai failing_service)"
    by (simp_all add: rate_def DEFAULT_SETTINGS_def)
  have 1: "effectiveDuration working_service DEFAULT_SETTINGS
             (fst (acquireAudio working_service DEFAULT_SETTINGS ?sc)) = Inr 1500"
    using effective_duration_by_clamped_rate[of DEFAULT_SETTINGS ?sc _ working_service] s(1) a r(1)
    by simp
  have 2: "effectiveDuration failing_service DEFAULT_SETTINGS
             (fst (acquireAudio failing_service DEFAULT_SETTINGS ?sc)) = Inr 2000"
    using effective_duration_by_clamped_rate[of DEFAULT_SETTINGS ?sc _ failing_service] s b
    by (simp add: DEFAULT_SETTINGS_def)
  have 3: "effectiveDuration failing_service ?st2 (fst (acquireAudio failing_service ?st2 ?sc)) = Inr 1000"
    using effective_duration_by_clamped_rate[of ?st2 ?sc _ failing_service] s c
    by (simp add: DEFAULT_SETTINGS_def)
  have 4: "effectiveDuration failing_service ?st3 (fst (acquireAudio failing_service ?st3 ?long)) = Inr 5000"
    using effective_duration_by_clamped_rate[of ?st3 ?long _ failing_service] s(4) s(5) r(2) r(3)
    by simp
  have 5: "rate (DEFAULT_SETTINGS\<lparr>ttsRate := 10.0\<rparr>) = 4.0"
    using effective_duration_by_clamped_rate[of "DEFAULT_SETTINGS\<lparr>ttsRate := 10.0\<rparr>"] by simp
  have 6: "rate (DEFAULT_SETTINGS\<lparr>ttsRate := 0.01\<rparr>) = 0.1"
    using effective_duration_by_clamped_rate[of "DEFAULT_SETTINGS\<lparr>ttsRate := 0.01\<rparr>"] by simp
  from 1 2 3 4 5 6 show ?thesis by simp
qed

text \<open>
  C3 as stated fails for a scene without audio whose stored duration is not the
  estimate: a new scene with a text of 20 code units, whose estimate is 5 seconds, comes
  out of an acquisition phase whose speech request fails without audio and without a
  duration, and lasts 2 seconds at rate 1.0, not 5.
\<close>

theorem scene_without_audio_lasts_default_not_estimate:
  "audioData (fst (acquireAudio failing_service DEFAULT_SETTINGS (newScene 2 (replicate 20 0x61) []))) = None \<and>
   max 2 (real (length (originalText (newScene 2 (replicate 20 0x61) []))) * 0.25) = 5 \<and>
   rate DEFAULT_SETTINGS = 1 \<and>
   effectiveDuration failing_service DEFAULT_SETTINGS
     (fst (acquireAudio failing_service DEFAULT_SETTINGS (newScene 2 (replicate 20 0x61) []))) = Inr 2000 \<and>
   effectiveDuration failing_service DEFAULT_SETTINGS
     (fst (acquireAudio failing_service DEFAULT_SETTINGS (newScene 2 (replicate 20 0x61) []))) \<noteq> Inr (5 / 1 * 1000)"
  by (simp add: acquireAudio_def effectiveDuration_def audioDuration_or_2_def
      rate_def newScene_def DEFAULT_SETTINGS_def failing_service_def)

text \<open>
  C6, as the code has it. Audio data is never present without a duration: the synthesis
  path either writes both fields at once or leaves the scene as it was. The duration can
  be present without audio data: with no synthesis configured, a scene without audio
  data gets the estimate as its duration and no audio data.
\<close>

theorem audio_data_comes_with_duration:
  "(audioData scene = None \<or> audioDuration scene \<noteq> None) \<Longrightarrow>
   (audioData (fst (acquireAudio e st scene)) = None \<or>
      audioDuration (fst (acquireAudio e st scene)) \<noteq> None) \<and>
   (ttsProvider st = Gemini \<and> ai e \<longrightarrow>
      fst (acquireAudio e st scene) = scene \<or>
      (audioData scene = None \<and> audioData (fst (acquireAudio e st scene)) \<noteq> None \<and>
       audioDuration (fst (acquireAudio e st scene)) \<noteq> None)) \<and>
   (\<not> (ttsProvider st = Gemini \<and> ai e) \<and> audioData scene = None \<longrightarrow>
      audioData (fst (acquireAudio e st scene)) = None \<and>
      audioDuration (fst (acquireAudio e st scene)) = Some (fallbackDuration scene))"
  by (auto simp: acquireAudio_def split: tts_reply.splits option.splits)

theorem audio_data_comes_with_duration_witness:
  "audioData (fst (acquireAudio working_service DEFAULT_SETTINGS (newScene 1 [0x48, 0x69] []))) = Some [1, 2, 3] \<and>
   audioDuration (fst (acquireAudio working_service DEFAULT_SETTINGS (newScene 1 [0x48, 0x69] []))) \<noteq> None \<and>
   audioData (fst (acquireAudio working_service (DEFAULT_SETTINGS\<lparr>ttsProvider := Browser\<rparr>)
     (newScene 1 [0x48, 0x69] []))) = None \<and>
   audioDuration (fst (acquireAudio working_service (DEFAULT_SETTINGS\<lparr>ttsProvider := Browser\<rparr>)
     (newScene 1 [0x48, 0x69] []))) = Some 2"
proof -
  let ?sc = "newScene 1 [0x48, 0x69] []"
  have s: "audioData ?sc = None" by (simp add: newScene_def)
  have d: "audioData (fst (acquireAudio working_service DEFAULT_SETTINGS ?sc)) = Some [1, 2, 3]"
    by (simp add: acquireAudio_def working_service_def DEFAULT_SETTINGS_def newScene_def
        tts_text_def decodeBase64_def decodeAudioData_def)
  have f: "fallbackDuration ?sc = 2"
    by (simp add: fallbackDuration_def newScene_def)
  have 1: "audioDuration (fst (acquireAudio working_service DEFAULT_SETTINGS ?sc)) \<noteq> None"
    using audio_data_comes_with_duration[of ?sc working_service DEFAULT_SETTINGS] s d by simp
  have 2: "audioData (fst (acquireAudio working_service (DEFAULT_SETTINGS\<lparr>ttsProvider := Browser\<rparr>) ?sc)) = None \<and>
      audioDuration (fst (acquireAudio working_service (DEFAULT_SETTINGS\<lparr>ttsProvider := Browser\<rparr>) ?sc)) = Some 2"
    using audio_data_comes_with_duration
      [of ?sc working_service "DEFAULT_SETTINGS\<lparr>ttsProvider := Browser\<rparr>"] s f
    by simp
  from d 1 2 show ?thesis by simp
qed

text \<open>
  C6 as stated fails: with the browser as speech provider, a new scene leaves the
  acquisition phase with a duration of 2 seconds and no audio data.
\<close>

theorem duration_set_without_audio_data:
  "audioData (fst (acquireAudio working_service (DEFAULT_SETTINGS\<lparr>ttsProvider := Browser\<rparr>)
     (newScene 1 [0x48, 0x69] []))) = None \<and>
   audioDuration (fst (acquireAudio working_service (DEFAULT_SETTINGS\<lparr>ttsProvider := Browser\<rparr>)
     (newScene 1 [0x48, 0x69] []))) = Some 2"
  by (simp add: acquireAudio_def DEFAULT_SETTINGS_def newScene_def fallbackDuration_def)




text \<open>
  C9, as the code has it. The text handed to the speech model is never empty: an empty
  text is replaced by a single space, and every other text, whitespace or not, is sent
  as it is. The acquisition of a scene sends no other text than this one.
\<close>

theorem speech_text_is_never_empty:
  "tts_text scene \<noteq> [] \<and>
   (originalText scene = [] \<longrightarrow> tts_text scene = [0x20]) \<and>
   (originalText scene \<noteq> [] \<longrightarrow> tts_text scene = originalText scene) \<and>
   (\<forall>t\<in>set (snd (acquireAudio e st scene)). t = tts_text scene)"
  by (auto simp: tts_text_def acquireAudio_def split: tts_reply.splits option.splits if_splits)

theorem speech_text_is_never_empty_witness:
  "tts_text (newScene 1 [] []) = [0x20] \<and>
   tts_text (newScene 2 [0x48, 0x69] []) = [0x48, 0x69] \<and>
   snd (acquireAudio failing_service DEFAULT_SETTINGS (newScene 1 [] [])) = [[0x20]]"
proof -
  have a: "originalText (newScene 1 [] []) = []" "originalText (newScene 2 [0x48, 0x69] []) \<noteq> []"
    "originalText (newScene 2 [0x48, 0x69] []) = [0x48, 0x69]"
    by (simp_all add: newScene_def)
  have b: "snd (acquireAudio failing_service DEFAULT_SETTINGS (newScene 1 [] []))
             = [tts_text (newScene 1 [] [])]"
    by (simp add: acquireAudio_def failing_service_def DEFAULT_SETTINGS_def newScene_def)
  from speech_text_is_never_empty[of "newScene 1 [] []"]
    speech_text_is_never_empty[of "newScene 2 [0x48, 0x69] []"] a b
  show ?thesis by simp
qed

text \<open>
  C9 as stated fails for a text of two spaces: it consists only of whitespace, and it is
  sent as it is, not as a single space. The single space sent for the empty text is
  itself only whitespace.
\<close>

theorem whitespace_text_is_sent_unchanged:
  "whitespace_only [0x20, 0x20] \<and>
   tts_text (newScene 1 [0x20, 0x20] []) = [0x20, 0x20] \<and>
   tts_text (newScene 1 [0x20, 0x20] []) \<noteq> [0x20] \<and>
   snd (acquireAudio failing_service DEFAULT_SETTINGS (newScene 1 [0x20, 0x20] [])) = [[0x20, 0x20]] \<and>
   whitespace_only (tts_text (newScene 1 [] []))"
  by (simp add: whitespace_only_def is_whitespace_def tts_text_def acquireAudio_def newScene_def
      failing_service_def DEFAULT_SETTINGS_def)

section \<open>Properties of the frame loop\<close>

lemma rounding_exact: "rounding (\<lambda>x. x)"
  by (simp add: rounding_def mono_def)

lemma mono_to_quarters: "mono to_quarters"
  by (auto simp: mono_def to_quarters_def intro!: divide_right_mono round_mono)

lemma rounding_to_quarters: "rounding to_quarters"
  using mono_to_quarters by (simp add: rounding_def) (simp add: to_quarters_def)

text \<open>The \<open>globalAlpha\<close> of the crossfade lies between 0 and 1 whatever time remains.\<close>

lemma alpha_in_unit_interval:
  assumes r: "rounding rnd" and pos: "0 \<le> remaining" and window: "rnd remaining < 500"
  shows "0 \<le> rnd (1 - rnd (rnd remaining / 500)) \<and> rnd (1 - rnd (rnd remaining / 500)) \<le> 1"
proof -
  from r have m: "mono rnd" and z: "rnd 0 = 0" and o: "rnd 1 = 1"
    by (simp_all add: rounding_def)
  have "rnd 0 \<le> rnd remaining" using m pos by (rule monoD)
  then have a: "0 \<le> rnd remaining / 500" by (simp add: z)
  have b: "rnd remaining / 500 \<le> 1" using window by simp
  have "rnd 0 \<le> rnd (rnd remaining / 500)" using m a by (rule monoD)
  moreover have "rnd (rnd remaining / 500) \<le> rnd 1" using m b by (rule monoD)
  ultimately have c: "0 \<le> 1 - rnd (rnd remaining / 500)" "1 - rnd (rnd remaining / 500) \<le> 1"
    by (simp_all add: z o)
  have "rnd 0 \<le> rnd (1 - rnd (rnd remaining / 500))" using m c(1) by (rule monoD)
  moreover have "rnd (1 - rnd (rnd remaining / 500)) \<le> rnd 1" using m c(2) by (rule monoD)
  ultimately show ?thesis by (simp add: z o)
qed

text \<open>The less time remains, the larger the \<open>globalAlpha\<close>.\<close>

lemma alpha_grows:
  assumes r: "rounding rnd" and le: "short \<le> long"
  shows "rnd (1 - rnd (rnd long / 500)) \<le> rnd (1 - rnd (rnd short / 500))"
proof -
  from r have m: "mono rnd" by (simp add: rounding_def)
  have "rnd short \<le> rnd long" using m le by (rule monoD)
  then have "rnd short / 500 \<le> rnd long / 500" by simp
  with m have "rnd (rnd short / 500) \<le> rnd (rnd long / 500)" by (rule monoD)
  then have "1 - rnd (rnd long / 500) \<le> 1 - rnd (rnd short / 500)" by simp
  with m show ?thesis by (rule monoD)
qed

lemma opacity_of_drawn_frame:
  "elapsed < duration \<Longrightarrow>
   nextImageOpacityAt rnd duration elapsed img True =
     Some (if rnd (duration - elapsed) < 500
           then rnd (1 - rnd (rnd (duration - elapsed) / 500)) else 0)"
  by (simp add: nextImageOpacityAt_def renderTick_def nextImageOpacity_def)

text \<open>
  C4, as the code has it, for a scene followed by an image; \<open>duration\<close> is the total
  duration of the scene as the code holds it. In every frame drawn while at least 500 ms
  remain, the next image has opacity 0. In every frame drawn later, its opacity is
  \<open>1 - (duration - elapsed) / 500\<close> as the rounded arithmetic gives it (and 0 if the
  remaining time is rounded up to 500): a value from 0 to 1 that does not decrease as
  time goes on, and exactly \<open>1 - (duration - elapsed) / 500\<close> when nothing is rounded.
  Once the elapsed time has reached the duration, the loop ends without drawing: there
  is no frame at the scene boundary. Whether an earlier frame reaches opacity 1 is left
  to the rounding.
\<close>

theorem crossfade_opacity_by_remaining_time:
  "rounding rnd \<Longrightarrow>
   (elapsed \<le> duration - 500 \<longrightarrow> nextImageOpacityAt rnd duration elapsed img True = Some 0) \<and>
   (elapsed < duration \<longrightarrow>
      nextImageOpacityAt rnd duration elapsed img True =
        Some (if rnd (duration - elapsed) < 500
              then rnd (1 - rnd (rnd (duration - elapsed) / 500)) else 0) \<and>
      0 \<le> (if rnd (duration - elapsed) < 500
            then rnd (1 - rnd (rnd (duration - elapsed) / 500)) else 0) \<and>
      (if rnd (duration - elapsed) < 500
       then rnd (1 - rnd (rnd (duration - elapsed) / 500)) else 0) \<le> 1) \<and>
   (elapsed \<le> later \<and> later < duration \<longrightarrow>
      (\<exists>a b. nextImageOpacityAt rnd duration elapsed img True = Some a \<and>
             nextImageOpacityAt rnd duration later img True = Some b \<and> a \<le> b)) \<and>
   (duration - 500 < elapsed \<and> elapsed < duration \<longrightarrow>
      nextImageOpacityAt (\<lambda>x. x) duration elapsed img True
        = Some (1 - (duration - elapsed) / 500)) \<and>
   (duration \<le> elapsed \<longrightarrow>
      renderTick rnd duration elapsed img nextImg = None \<and>
      nextImageOpacityAt rnd duration elapsed img nextImg = None)"
proof -
  assume r: "rounding rnd"
  then have m: "mono rnd" and f: "rnd 500 = 500" by (simp_all add: rounding_def)
  let ?alpha = "\<lambda>t. if rnd (duration - t) < 500
                     then rnd (1 - rnd (rnd (duration - t) / 500)) else 0"
  have range: "0 \<le> ?alpha t \<and> ?alpha t \<le> 1" if "t < duration" for t
    using alpha_in_unit_interval[OF r, of "duration - t"] that by simp
  have early: "nextImageOpacityAt rnd duration elapsed img True = Some 0"
    if "elapsed \<le> duration - 500"
  proof -
    from that have "rnd 500 \<le> rnd (duration - elapsed)" by (intro monoD[OF m]) simp
    then have "\<not> rnd (duration - elapsed) < 500" by (simp add: f)
    moreover from that have "elapsed < duration" by simp
    ultimately show ?thesis by (simp add: opacity_of_drawn_frame)
  qed
  have grows: "?alpha elapsed \<le> ?alpha later" if "elapsed \<le> later" "later < duration"
  proof (cases "rnd (duration - elapsed) < 500")
    case True
    from that(1) have "rnd (duration - later) \<le> rnd (duration - elapsed)"
      by (intro monoD[OF m]) simp
    with True have "rnd (duration - later) < 500" by simp
    with True alpha_grows[OF r, of "duration - later" "duration - elapsed"] that(1)
    show ?thesis by simp
  next
    case False
    with range[OF that(2)] show ?thesis by simp
  qed
  have late: "\<exists>a b. nextImageOpacityAt rnd duration elapsed img True = Some a \<and>
      nextImageOpacityAt rnd duration later img True = Some b \<and> a \<le> b"
    if "elapsed \<le> later" "later < duration"
  proof -
    from that have "elapsed < duration" by simp
    with that(2) grows[OF that] show ?thesis
      by (simp add: opacity_of_drawn_frame)
  qed
  have exact: "nextImageOpacityAt (\<lambda>x. x) duration elapsed img True
      = Some (1 - (duration - elapsed) / 500)"
    if "duration - 500 < elapsed" "elapsed < duration"
    using that by (simp add: opacity_of_drawn_frame)
  have over: "renderTick rnd duration elapsed img nextImg = None \<and>
      nextImageOpacityAt rnd duration elapsed img nextImg = None"
    if "duration \<le> elapsed"
    using that by (simp add: nextImageOpacityAt_def renderTick_def)
  from early range[of elapsed] late exact over show ?thesis
    by (simp add: opacity_of_drawn_frame)
qed

theorem crossfade_opacity_by_remaining_time_witness:
  "rounding (\<lambda>x. x) \<and> rounding to_quarters \<and>
   nextImageOpacityAt (\<lambda>x. x) 2000 1500 True True = Some 0 \<and>
   nextImageOpacityAt (\<lambda>x. x) 2000 1750 True True = Some 0.5 \<and>
   nextImageOpacityAt to_quarters 2000 1750 True True = Some 0.5 \<and>
   nextImageOpacityAt to_quarters 2000.1 2000 True True = Some 1 \<and>
   renderTick to_quarters 2000 2000 True True = None"
proof -
  note e = crossfade_opacity_by_remaining_time[OF rounding_exact]
  note q = crossfade_opacity_by_remaining_time[OF rounding_to_quarters]
  have 1: "nextImageOpacityAt (\<lambda>x. x) 2000 1500 True True = Some 0"
    using e[where elapsed = 1500 and duration = 2000 and img = True] by simp
  have 2: "nextImageOpacityAt (\<lambda>x. x) 2000 1750 True True = Some 0.5"
    using e[where elapsed = 1750 and duration = 2000 and img = True] by simp
  have 3: "nextImageOpacityAt to_quarters 2000 1750 True True = Some 0.5"
    using q[where elapsed = 1750 and duration = 2000 and img = True]
    by (simp add: to_quarters_def round_def)
  have 4: "nextImageOpacityAt to_quarters 2000.1 2000 True True = Some 1"
    using q[where elapsed = 2000 and duration = "2000.1" and img = True]
    by (simp add: to_quarters_def round_def)
  have 5: "renderTick to_quarters 2000 2000 True True = None"
    using q[where elapsed = 2000 and duration = 2000 and img = True and nextImg = True] by simp
  from rounding_exact rounding_to_quarters 1 2 3 4 5 show ?thesis by simp
qed

text \<open>
  C4 as stated fails at the scene boundary: for a scene of 2000 ms the pass of the loop
  at 2000 ms draws nothing, whatever the rounding, so the next image is not shown at
  opacity 1 at the moment when the elapsed time equals the total.
\<close>

theorem no_frame_at_scene_boundary:
  "\<forall>rnd. renderTick rnd 2000 2000 True True = None \<and>
         nextImageOpacityAt rnd 2000 2000 True True = None \<and>
         nextImageOpacityAt rnd 2000 2000 True True \<noteq> Some 1"
  by (simp add: nextImageOpacityAt_def renderTick_def)

section \<open>Properties of the scene list\<close>









section \<open>Properties of the export orchestrator\<close>

lemma one_export_step: "one_export a \<Longrightarrow> one_export (app_step e a ev)"
proof (cases ev)
  case Click_export
  assume "one_export a"
  then show ?thesis
    by (auto simp: Click_export one_export_def handleExportVideo_begin_def)
next
  case Export_runs
  assume "one_export a"
  then show ?thesis
    by (cases "pending a")
      (auto simp: Export_runs one_export_def handleExportVideo_rest_def Let_def)
next
  case (Set_scenes scs)
  assume "one_export a"
  then show ?thesis by (simp add: Set_scenes one_export_def)
next
  case (Set_settings st)
  assume "one_export a"
  then show ?thesis by (simp add: Set_settings one_export_def)
qed

lemma one_export_run: "one_export a \<Longrightarrow> one_export (app_run e a evs)"
  by (induction evs arbitrary: a) (auto simp: one_export_step)

text \<open>
  \<open>handleExportVideo\<close> does not test the flag itself: called while an export is
  pending, it would start another. What keeps that from happening is the button, its
  only caller, which is disabled while the flag is set.
\<close>

lemma handleExportVideo_has_no_guard:
  "scenes a \<noteq> [] \<Longrightarrow> audioContext e \<Longrightarrow>
   pending (handleExportVideo_begin e a) = pending a @ [(scenes a, settings a)]"
  by (simp add: handleExportVideo_begin_def)

text \<open>
  C8. From a state in which no export is under way, whatever clicks, updates and export
  runs follow: at most one call of the export is pending, the flag is set exactly while
  one is, and a click on the export button while the flag is set changes nothing at
  all, neither the state nor the pending call nor the log of effects, so that
  everything that follows goes as it would have gone without the click.
\<close>

theorem export_click_during_export_is_ignored:
  "idle a \<Longrightarrow>
   length (pending (app_run e a evs)) \<le> 1 \<and>
   (isExporting (app_run e a evs) \<longleftrightarrow> pending (app_run e a evs) \<noteq> []) \<and>
   (isExporting (app_run e a evs) \<longrightarrow>
      app_step e (app_run e a evs) Click_export = app_run e a evs \<and>
      app_run e (app_run e a evs) (Click_export # later) = app_run e (app_run e a evs) later)"
proof -
  assume "idle a"
  then have "one_export a" by (simp add: idle_def one_export_def)
  then have "one_export (app_run e a evs)" by (rule one_export_run)
  then show ?thesis by (simp add: one_export_def)
qed

theorem export_click_during_export_is_ignored_witness:
  "idle \<lparr>scenes = [newScene 1 [0x48, 0x69] []], settings = DEFAULT_SETTINGS, isExporting = False,
         exportProgress = No_text, pending = [], effects = []\<rparr> \<and>
   isExporting (app_run failing_service
     \<lparr>scenes = [newScene 1 [0x48, 0x69] []], settings = DEFAULT_SETTINGS, isExporting = False,
      exportProgress = No_text, pending = [], effects = []\<rparr> [Click_export]) \<and>
   app_run failing_service
     \<lparr>scenes = [newScene 1 [0x48, 0x69] []], settings = DEFAULT_SETTINGS, isExporting = False,
      exportProgress = No_text, pending = [], effects = []\<rparr> [Click_export, Click_export]
   = app_run failing_service
     \<lparr>scenes = [newScene 1 [0x48, 0x69] []], settings = DEFAULT_SETTINGS, isExporting = False,
      exportProgress = No_text, pending = [], effects = []\<rparr> [Click_export] \<and>
   length (pending (app_run failing_service
     \<lparr>scenes = [newScene 1 [0x48, 0x69] []], settings = DEFAULT_SETTINGS, isExporting = False,
      exportProgress = No_text, pending = [], effects = []\<rparr> [Click_export])) = 1"
proof -
  let ?a = "\<lparr>scenes = [newScene 1 [0x48, 0x69] []], settings = DEFAULT_SETTINGS, isExporting = False,
         exportProgress = No_text, pending = [], effects = []\<rparr>"
  have i: "idle ?a" by (simp add: idle_def)
  have x: "isExporting (app_run failing_service ?a [Click_export])"
    by (simp add: handleExportVideo_begin_def failing_service_def)
  note t = export_click_during_export_is_ignored[OF i, of failing_service "[Click_export]" "[]"]
  from t x have s: "app_step failing_service (app_run failing_service ?a [Click_export]) Click_export
      = app_run failing_service ?a [Click_export]"
    by blast
  have r: "app_run failing_service ?a [Click_export, Click_export]
      = app_step failing_service (app_run failing_service ?a [Click_export]) Click_export"
    by simp
  from t x have "pending (app_run failing_service ?a [Click_export]) \<noteq> []" by blast
  moreover from t have "length (pending (app_run failing_service ?a [Click_export])) \<le> 1" by blast
  ultimately have l: "length (pending (app_run failing_service ?a [Click_export])) = 1"
    by (cases "pending (app_run failing_service ?a [Click_export])") auto
  show ?thesis using i x s l unfolding r by blast
qed

text \<open>
  C10. With an empty scene list the export does nothing: the call returns at its first
  line and leaves the whole state as it was, so the flag is not set, no call is pending,
  and nothing is requested, shown or delivered. The click on the button does the same,
  and the state stays idle with no effect logged.
\<close>

theorem export_without_scenes_does_nothing:
  "scenes a = [] \<Longrightarrow>
   handleExportVideo_begin e a = a \<and> app_step e a Click_export = a \<and>
   isExporting (handleExportVideo_begin e a) = isExporting a \<and>
   pending (handleExportVideo_begin e a) = pending a \<and>
   effects (handleExportVideo_begin e a) = effects a"
  by (simp add: handleExportVideo_begin_def)

theorem export_without_scenes_does_nothing_witness:
  "scenes \<lparr>scenes = [], settings = DEFAULT_SETTINGS, isExporting = False,
           exportProgress = No_text, pending = [], effects = []\<rparr> = [] \<and>
   app_step working_service
     \<lparr>scenes = [], settings = DEFAULT_SETTINGS, isExporting = False,
      exportProgress = No_text, pending = [], effects = []\<rparr> Click_export
   = \<lparr>scenes = [], settings = DEFAULT_SETTINGS, isExporting = False,
      exportProgress = No_text, pending = [], effects = []\<rparr>"
  using export_without_scenes_does_nothing
    [of "\<lparr>scenes = [], settings = DEFAULT_SETTINGS, isExporting = False,
          exportProgress = No_text, pending = [], effects = []\<rparr>" working_service]
  by simp

end

